theory Spec2Isabelle
  imports Main "HOL-Library.Word"
begin

section \<open>Data model of the parachain commitment scanner\<close>

text \<open>
  The scanner lives in package \<open>parachain\<close> (first unnamed source part), with the
  functions \<open>Scan\<close>, \<open>findTasks\<close>, \<open>findTasksImpl\<close>, \<open>gatherProofInputs\<close>,
  \<open>findInclusionBlockNumber\<close>, \<open>scanForBasicChannelProofs\<close>,
  \<open>markAccountScanDone\<close> and \<open>fetchBundleProof\<close>. Machine integers keep their Go
  widths. Hashes and account ids are 32-byte values; only their equality is ever used, so
  they are 256-bit words.
\<close>

type_synonym u32 = "32 word"
type_synonym u64 = "64 word"
type_synonym Hash = "256 word"
type_synonym AccountID = "256 word"
type_synonym Bytes = "8 word list"

text \<open>
  Go errors. \<open>Errorf m\<close> is \<open>fmt.Errorf(m)\<close> and \<open>Wrapf m e\<close> is
  \<open>fmt.Errorf(m + ": %w", e)\<close>, the error \<open>e\<close> wrapped. The message keeps the words
  of the source's format string; the formatted values (block numbers, hashes, account ids)
  are left out. Errors handed back by a collaborator are values of the same type.
\<close>

datatype error = Errorf string | Wrapf string error

text \<open>
  Modelled from the spec: the declarations of \<open>Header\<close>, \<open>AuxiliaryDigestItem\<close>,
  \<open>BasicOutboundChannelMessageBundle\<close>, \<open>MerkleProof\<close>, \<open>BundleProof\<close>, the
  \<open>Committed\<close> event, \<open>ProofInput\<close> and \<open>Task\<close> are not among the sources. The
  records below have the fields of the spec's data model under the names the scanner uses
  for them. \<open>PersistedValidationData\<close> is declared in the source.

  A header: the block number is the substrate client's 32-bit \<open>BlockNumber\<close>, which the
  scanner widens with \<open>uint64(...)\<close> wherever it compares it. The digest is carried as
  encoded items; the scanner only hands it to \<open>ExtractAuxiliaryDigestItems\<close>.
\<close>

record Header =
  ParentHash :: Hash
  Number :: u32
  StateRoot :: Hash
  ExtrinsicsRoot :: Hash
  Digest :: "Bytes list"

text \<open>An auxiliary digest item, with the two fields the scanner reads.\<close>

record AuxiliaryDigestItem =
  IsCommitment :: bool
  AsCommitment_Hash :: Hash

text \<open>
  A message bundle of the basic outbound channel. \<open>Nonce\<close> is a compact-encoded big
  integer in the source; the scanner reads it through \<open>big.Int.Uint64\<close>, which yields
  the low 64 bits.
\<close>

record BasicOutboundChannelMessageBundle =
  Account :: AccountID
  Nonce :: nat
  Messages :: "Bytes list"

definition Uint64 :: "nat \<Rightarrow> u64" where
  "Uint64 n = word_of_nat n"

record MerkleProof =
  Root :: Hash
  InnerHashes :: "Hash list"

record BundleProof =
  Bundle :: BasicOutboundChannelMessageBundle
  Proof :: MerkleProof

text \<open>The \<open>Committed\<close> event of a block, as the event query client returns it.\<close>

record BasicOutboundChannelEvent =
  Hash :: Hash
  Bundles :: "BasicOutboundChannelMessageBundle list"

record PersistedValidationData =
  ParentHead :: Bytes
  RelayParentNumber :: u32
  RelayParentStorageRoot :: Hash
  MaxPOVSize :: u32

record ProofInput =
  ParaID :: u32
  RelayBlockNumber :: u64
  ParaHeads :: "Header list"

text \<open>
  A task. \<open>ProofOutput\<close> is never set by the scanner (it is filled in by a later stage
  whose type is not part of these sources), so it is a unit option that stays \<open>None\<close>.
\<close>

record Task =
  Header :: Header
  BasicChannelProofs :: "BundleProof list"
  ProofInput :: "ProofInput option"
  ProofOutput :: "unit option"

subsection \<open>The collaborators\<close>

text \<open>
  Modelled from the spec: the three chain connections, the event query client and the
  codec functions (storage keys, hex strings, \<open>NewMerkleProof\<close>,
  \<open>ExtractAuxiliaryDigestItems\<close>) are not among the sources. They are parameters: every
  call the scanner makes on them is a field of a record below, with the signature of the
  spec's external interfaces, returning either an error or the value. A Go call returning
  \<open>(ok, err)\<close> with an out-parameter returns an option here (\<open>None\<close> is
  \<open>ok = false\<close>). The fields are read-only: a scan never changes chain state. Of the
  \<open>Scanner\<close> struct, the configuration (endpoint and contract address) and the task
  channel are left out: no function below reads a value from them.
\<close>

record ParaConn =
  para_GetBlockHash :: "u64 \<Rightarrow> error + Hash"
  para_GetHeader :: "Hash \<Rightarrow> error + Header"
  CreateStorageKey_Nonce :: "AccountID \<Rightarrow> error + Bytes"
  CreateStorageKey_ValidationData :: "error + Bytes"
  GetStorage_Nonce :: "Bytes \<Rightarrow> Hash \<Rightarrow> error + u64 option"
  GetStorage_ValidationData :: "Bytes \<Rightarrow> Hash \<Rightarrow> error + PersistedValidationData option"
  EncodeToHexString :: "Hash \<Rightarrow> error + string"
  getMerkleProof :: "string \<Rightarrow> nat \<Rightarrow> error + string"
  DecodeFromHexString :: "string \<Rightarrow> error + Bytes"
  NewMerkleProof :: "Bytes \<Rightarrow> error + MerkleProof"
  ExtractAuxiliaryDigestItems :: "Bytes list \<Rightarrow> error + AuxiliaryDigestItem list"

record RelayConn =
  relay_GetBlockHash :: "u64 \<Rightarrow> error + Hash"
  FetchParachainHead :: "Hash \<Rightarrow> u32 \<Rightarrow> error + Header option"
  FetchParachainHeads :: "Hash \<Rightarrow> error + Header list"

record EthConn =
  NewBasicInboundChannel :: "error option"
  eth_Nonce :: "AccountID \<Rightarrow> error + u64"

record Scanner =
  ethConn :: EthConn
  relayConn :: RelayConn
  paraConn :: ParaConn
  paraID :: u32
  QueryEvent :: "Hash \<Rightarrow> error + BasicOutboundChannelEvent option"
  accounts :: "AccountID list"

section \<open>Bundle proofs\<close>

text \<open>\<open>fetchBundleProof\<close>: four fallible steps, then the proof paired with its bundle.\<close>

definition fetchBundleProof ::
  "ParaConn \<Rightarrow> Hash \<Rightarrow> nat \<Rightarrow> BasicOutboundChannelMessageBundle \<Rightarrow> error + BundleProof" where
  "fetchBundleProof api commitmentHash bundleIndex bundle =
     (case EncodeToHexString api commitmentHash of
        Inl err \<Rightarrow> Inl (Wrapf ''encode commitmentHash'' err)
      | Inr commitmentHashHex \<Rightarrow>
     (case getMerkleProof api commitmentHashHex bundleIndex of
        Inl err \<Rightarrow> Inl (Wrapf ''call rpc basicOutboundChannel_getMerkleProof'' err)
      | Inr proofHex \<Rightarrow>
     (case DecodeFromHexString api proofHex of
        Inl err \<Rightarrow> Inl (Wrapf ''decode merkle proof'' err)
      | Inr rawProof \<Rightarrow>
     (case NewMerkleProof api rawProof of
        Inl err \<Rightarrow> Inl (Wrapf ''decode merkle proof'' err)
      | Inr proof \<Rightarrow> Inr \<lparr>Bundle = bundle, Proof = proof\<rparr>))))"

text \<open>
  The mutable state shared by the walk and the bundle scan: the accounts still being
  searched (a Go map used as a set), the proofs collected so far and the done flag.
\<close>

record scanState =
  basicChannelScanAccounts :: "AccountID set"
  basicChannelProofs :: "BundleProof list"
  scanBasicChannelDone :: bool

text \<open>\<open>markAccountScanDone\<close> deletes the account and reports whether none is left.\<close>

definition markAccountScanDone :: "AccountID set \<Rightarrow> AccountID \<Rightarrow> AccountID set \<times> bool" where
  "markAccountScanDone scanBasicChannelAccounts accountID =
     (scanBasicChannelAccounts - {accountID}, scanBasicChannelAccounts - {accountID} = {})"

text \<open>A Go map read: an absent key reads as zero.\<close>

definition nonceOf :: "(AccountID \<rightharpoonup> u64) \<Rightarrow> AccountID \<Rightarrow> u64" where
  "nonceOf basicChannelAccountNonces a =
     (case basicChannelAccountNonces a of None \<Rightarrow> 0 | Some n \<Rightarrow> n)"

text \<open>One iteration of the loop over the bundles in \<open>scanForBasicChannelProofs\<close>.\<close>

definition scanBundle ::
  "ParaConn \<Rightarrow> Hash \<Rightarrow> (AccountID \<rightharpoonup> u64) \<Rightarrow> nat \<Rightarrow> BasicOutboundChannelMessageBundle
     \<Rightarrow> scanState \<Rightarrow> error + scanState" where
  "scanBundle api digestItemHash basicChannelAccountNonces bundleIndex bundle st =
     (if Account bundle \<notin> basicChannelScanAccounts st then Inr st
      else
        let nonceToFind = nonceOf basicChannelAccountNonces (Account bundle);
            bundleNonce = Uint64 (Nonce bundle);
            marked = markAccountScanDone (basicChannelScanAccounts st) (Account bundle)
        in
        if bundleNonce < nonceToFind then
          Inr (st\<lparr>basicChannelScanAccounts := fst marked, scanBasicChannelDone := snd marked\<rparr>)
        else
          (case fetchBundleProof api digestItemHash bundleIndex bundle of
             Inl err \<Rightarrow> Inl err
           | Inr basicChannelBundleProof \<Rightarrow>
               if Root (Proof basicChannelBundleProof) \<noteq> digestItemHash then
                 Inr (st\<lparr>basicChannelScanAccounts := fst marked,
                          scanBasicChannelDone := snd marked\<rparr>)
               else if nonceToFind < bundleNonce then
                 Inr (st\<lparr>basicChannelProofs := basicChannelProofs st @ [basicChannelBundleProof]\<rparr>)
               else if bundleNonce = nonceToFind then
                 Inr (st\<lparr>basicChannelScanAccounts := fst marked,
                          basicChannelProofs := basicChannelProofs st @ [basicChannelBundleProof],
                          scanBasicChannelDone := snd marked\<rparr>)
               else Inr st))"

fun scanBundles ::
  "ParaConn \<Rightarrow> Hash \<Rightarrow> (AccountID \<rightharpoonup> u64) \<Rightarrow> nat \<Rightarrow> BasicOutboundChannelMessageBundle list
     \<Rightarrow> scanState \<Rightarrow> error + scanState" where
  "scanBundles api digestItemHash nonces bundleIndex [] st = Inr st"
| "scanBundles api digestItemHash nonces bundleIndex (bundle # bundles) st =
     (case scanBundle api digestItemHash nonces bundleIndex bundle st of
        Inl err \<Rightarrow> Inl err
      | Inr st' \<Rightarrow> scanBundles api digestItemHash nonces (Suc bundleIndex) bundles st')"

text \<open>
  \<open>scanForBasicChannelProofs\<close> starts from an empty proof list and a false done flag,
  whatever the caller holds; it returns both, and the caller's account set as the loop
  left it (the Go map is shared with the caller).
\<close>

definition scanForBasicChannelProofs ::
  "ParaConn \<Rightarrow> Hash \<Rightarrow> (AccountID \<rightharpoonup> u64) \<Rightarrow> AccountID set
     \<Rightarrow> BasicOutboundChannelMessageBundle list \<Rightarrow> error + scanState" where
  "scanForBasicChannelProofs api digestItemHash basicChannelAccountNonces scanAccounts bundles =
     scanBundles api digestItemHash basicChannelAccountNonces 0 bundles
       \<lparr>basicChannelScanAccounts = scanAccounts, basicChannelProofs = [],
        scanBasicChannelDone = False\<rparr>"

section \<open>The backward walk\<close>

text \<open>
  The body of the loop over a block's digest items in \<open>findTasksImpl\<close>. The result of
  \<open>scanForBasicChannelProofs\<close> is assigned to the block's proof list and to the done
  flag; the account set is the shared map as the scan left it.
\<close>

definition processDigestItem ::
  "Scanner \<Rightarrow> (AccountID \<rightharpoonup> u64) \<Rightarrow> BasicOutboundChannelEvent option \<Rightarrow> AuxiliaryDigestItem
     \<Rightarrow> scanState \<Rightarrow> error + scanState" where
  "processDigestItem s basicChannelAccountNonces events digestItem st =
     (if \<not> IsCommitment digestItem then Inr st
      else if \<not> scanBasicChannelDone st then
        (case events of
           None \<Rightarrow> Inl (Errorf ''event basicOutboundChannel.Committed not found in block'')
         | Some ev \<Rightarrow>
             let digestItemHash = AsCommitment_Hash digestItem in
             if Hash ev \<noteq> digestItemHash then
               Inl (Errorf ''basic channel commitment hash in digest item does not match the one in the Committed event'')
             else
               (case scanForBasicChannelProofs (paraConn s) digestItemHash
                       basicChannelAccountNonces (basicChannelScanAccounts st) (Bundles ev) of
                  Inl err \<Rightarrow> Inl err
                | Inr result \<Rightarrow>
                    Inr (st\<lparr>basicChannelScanAccounts := basicChannelScanAccounts result,
                             basicChannelProofs := basicChannelProofs result,
                             scanBasicChannelDone := scanBasicChannelDone result\<rparr>)))
      else Inr st)"

fun processDigestItems ::
  "Scanner \<Rightarrow> (AccountID \<rightharpoonup> u64) \<Rightarrow> BasicOutboundChannelEvent option
     \<Rightarrow> AuxiliaryDigestItem list \<Rightarrow> scanState \<Rightarrow> error + scanState" where
  "processDigestItems s nonces events [] st = Inr st"
| "processDigestItems s nonces events (digestItem # digestItems) st =
     (case processDigestItem s nonces events digestItem st of
        Inl err \<Rightarrow> Inl err
      | Inr st' \<Rightarrow> processDigestItems s nonces events digestItems st')"

text \<open>
  The walk writes a debug entry \<open>Checking header\<close> with the block number at the top of
  every iteration. The model returns these entries, in order, beside the result, so that
  the blocks a walk has visited can be spoken about.
\<close>

definition checkingHeader :: "u64 \<Rightarrow> u64 list \<times> 'a \<Rightarrow> u64 list \<times> 'a" where
  "checkingHeader blockNumber r = (blockNumber # fst r, snd r)"

text \<open>
  \<open>sort.SliceStable\<close> with the comparison \<open>tasks[i].Header.Number < tasks[j].Header.Number\<close>:
  the stable sort by that key.
\<close>

definition sortTasks :: "Task list \<Rightarrow> Task list" where
  "sortTasks tasks = sort_key (\<lambda>t. Number (Header t)) tasks"

text \<open>The \<open>for\<close> loop of \<open>findTasksImpl\<close>, and the sort that follows it.\<close>

function findTasksLoop ::
  "Scanner \<Rightarrow> (AccountID \<rightharpoonup> u64) \<Rightarrow> u64 \<Rightarrow> AccountID set \<Rightarrow> bool \<Rightarrow> Task list
     \<Rightarrow> u64 list \<times> (error + Task list)" where
  "findTasksLoop s nonces currentBlockNumber scanAccounts scanDone tasks =
     (if \<not> scanDone \<and> 0 < currentBlockNumber then
        (case para_GetBlockHash (paraConn s) currentBlockNumber of
           Inl err \<Rightarrow> ([currentBlockNumber], Inl (Wrapf ''fetch blockhash for block'' err))
         | Inr blockHash \<Rightarrow>
        (case para_GetHeader (paraConn s) blockHash of
           Inl err \<Rightarrow> ([currentBlockNumber], Inl (Wrapf ''fetch header for'' err))
         | Inr header \<Rightarrow>
        (case ExtractAuxiliaryDigestItems (paraConn s) (Digest header) of
           Inl err \<Rightarrow> ([currentBlockNumber], Inl err)
         | Inr digestItems \<Rightarrow>
             if digestItems = [] then
               checkingHeader currentBlockNumber
                 (findTasksLoop s nonces (currentBlockNumber - 1) scanAccounts scanDone tasks)
             else
               (case QueryEvent s blockHash of
                  Inl err \<Rightarrow> ([currentBlockNumber], Inl (Wrapf ''query events'' err))
                | Inr events \<Rightarrow>
               (case processDigestItems s nonces events digestItems
                       \<lparr>basicChannelScanAccounts = scanAccounts, basicChannelProofs = [],
                        scanBasicChannelDone = scanDone\<rparr> of
                  Inl err \<Rightarrow> ([currentBlockNumber], Inl err)
                | Inr st \<Rightarrow>
                    checkingHeader currentBlockNumber
                      (findTasksLoop s nonces (currentBlockNumber - 1)
                         (basicChannelScanAccounts st) (scanBasicChannelDone st)
                         (if basicChannelProofs st \<noteq> [] then
                            tasks @ [\<lparr>Header = header, BasicChannelProofs = basicChannelProofs st,
                                      ProofInput = None, ProofOutput = None\<rparr>]
                          else tasks)))))))
      else ([], Inr (sortTasks tasks)))"
  by pat_completeness auto
termination
  by (relation "measure (\<lambda>(s, nonces, currentBlockNumber, rest). unat currentBlockNumber)")
     (auto simp: unat_minus_one word_gt_0 unat_gt_0)

declare findTasksLoop.simps [simp del]

definition findTasksImpl ::
  "Scanner \<Rightarrow> u64 \<Rightarrow> (AccountID \<rightharpoonup> u64) \<Rightarrow> u64 list \<times> (error + Task list)" where
  "findTasksImpl s lastParaBlockNumber basicChannelAccountNonces =
     findTasksLoop s basicChannelAccountNonces lastParaBlockNumber
       (dom basicChannelAccountNonces) (dom basicChannelAccountNonces = {}) []"

section \<open>Inclusion of a parachain block in the relay chain\<close>

definition FinalizationTimeout :: u32 where
  "FinalizationTimeout = 4"

text \<open>
  The loop of \<open>findInclusionBlockNumber\<close>: \<open>i\<close> and the bound are 32-bit, so the bound
  \<open>startBlock + FinalizationTimeout\<close> wraps around.
\<close>

function inclusionLoop :: "Scanner \<Rightarrow> u64 \<Rightarrow> u32 \<Rightarrow> u32 \<Rightarrow> error + u64" where
  "inclusionLoop s paraBlockNumber bound i =
     (if i < bound then
        (case relay_GetBlockHash (relayConn s) (ucast i) of
           Inl err \<Rightarrow> Inl (Wrapf ''fetch relaychain block hash'' err)
         | Inr relayBlockHash \<Rightarrow>
        (case FetchParachainHead (relayConn s) relayBlockHash (paraID s) of
           Inl err \<Rightarrow> Inl (Wrapf ''fetch head for parachain at block'' err)
         | Inr None \<Rightarrow> Inl (Errorf ''parachain is not registered'')
         | Inr (Some paraHead) \<Rightarrow>
             if paraBlockNumber = ucast (Number paraHead) then Inr (ucast i)
             else inclusionLoop s paraBlockNumber bound (i + 1)))
      else Inl (Errorf ''scan terminated''))"
  by pat_completeness auto
termination
proof (relation "measure (\<lambda>(s, paraBlockNumber, bound, i). unat bound - unat i)", goal_cases)
  case 1
  show ?case by simp
next
  case (2 s paraBlockNumber bound i)
  have "unat bound < 2 ^ 32"
    using unsigned_less [of bound, where ?'a = nat] by simp
  moreover have "unat i < unat bound"
    using 2 by (simp add: word_less_nat_alt)
  ultimately have "unat (i + 1) = Suc (unat i)"
    by (simp add: unat_word_ariths)
  with \<open>unat i < unat bound\<close> show ?case by simp
qed

declare inclusionLoop.simps [simp del]

definition findInclusionBlockNumber :: "Scanner \<Rightarrow> u64 \<Rightarrow> error + u64" where
  "findInclusionBlockNumber s paraBlockNumber =
     (case CreateStorageKey_ValidationData (paraConn s) of
        Inl err \<Rightarrow> Inl (Wrapf ''create storage key'' err)
      | Inr validationDataKey \<Rightarrow>
     (case para_GetBlockHash (paraConn s) paraBlockNumber of
        Inl err \<Rightarrow> Inl (Wrapf ''fetch parachain block hash'' err)
      | Inr paraBlockHash \<Rightarrow>
     (case GetStorage_ValidationData (paraConn s) validationDataKey paraBlockHash of
        Inl err \<Rightarrow> Inl (Wrapf ''fetch PersistedValidationData for block'' err)
      | Inr None \<Rightarrow> Inl (Errorf ''PersistedValidationData not found for block'')
      | Inr (Some validationData) \<Rightarrow>
          let startBlock = RelayParentNumber validationData + 1 in
          inclusionLoop s paraBlockNumber (startBlock + FinalizationTimeout)
            (RelayParentNumber validationData + 1))))"

text \<open>
  \<open>gatherProofInputs\<close> sets \<open>ProofInput\<close> on the tasks in place, one after the other,
  and returns at the first error; the tasks before it keep their input, the failing task
  and those after it keep \<open>None\<close>. The model returns the tasks as the call leaves them,
  and the error.
\<close>

fun gatherProofInputs :: "Scanner \<Rightarrow> Task list \<Rightarrow> Task list \<times> error option" where
  "gatherProofInputs s [] = ([], None)"
| "gatherProofInputs s (task # tasks) =
     (case findInclusionBlockNumber s (ucast (Number (Header task))) of
        Inl err \<Rightarrow>
          (task # tasks, Some (Wrapf ''find inclusion block number for parachain block'' err))
      | Inr relayBlockNumber \<Rightarrow>
     (case relay_GetBlockHash (relayConn s) relayBlockNumber of
        Inl err \<Rightarrow> (task # tasks, Some (Wrapf ''fetch relaychain block hash'' err))
      | Inr relayBlockHash \<Rightarrow>
     (case FetchParachainHeads (relayConn s) relayBlockHash of
        Inl err \<Rightarrow> (task # tasks, Some (Wrapf ''fetch parachain heads'' err))
      | Inr parachainHeads \<Rightarrow>
          (let r = gatherProofInputs s tasks in
           (task\<lparr>ProofInput := Some \<lparr>ParaID = paraID s, RelayBlockNumber = relayBlockNumber,
                                     ParaHeads = parachainHeads\<rparr>\<rparr> # fst r, snd r)))))"

section \<open>Comparing nonces and the entry point\<close>

text \<open>
  The loop over the configured accounts in \<open>findTasks\<close>, building the Go map
  \<open>basicChannelAccountNoncesToFind\<close>.
\<close>

fun findNonces ::
  "Scanner \<Rightarrow> Hash \<Rightarrow> AccountID list \<Rightarrow> (AccountID \<rightharpoonup> u64) \<Rightarrow> error + (AccountID \<rightharpoonup> u64)" where
  "findNonces s paraHash [] noncesToFind = Inr noncesToFind"
| "findNonces s paraHash (account # rest) noncesToFind =
     (case eth_Nonce (ethConn s) account of
        Inl err \<Rightarrow> Inl err
      | Inr ethBasicNonce \<Rightarrow>
     (case CreateStorageKey_Nonce (paraConn s) account of
        Inl err \<Rightarrow> Inl (Wrapf ''create storage key for account'' err)
      | Inr paraBasicNonceKey \<Rightarrow>
     (case GetStorage_Nonce (paraConn s) paraBasicNonceKey paraHash of
        Inl err \<Rightarrow> Inl err
      | Inr stored \<Rightarrow>
          (let paraBasicNonce = (case stored of None \<Rightarrow> 0 | Some n \<Rightarrow> n) in
           findNonces s paraHash rest
             (if ethBasicNonce < paraBasicNonce then noncesToFind(account \<mapsto> ethBasicNonce + 1)
              else noncesToFind)))))"

text \<open>
  \<open>findTasks\<close>. The value of \<open>gatherProofInputs\<close> is not read: the call is a statement of
  its own, and the tasks are returned as it left them.
\<close>

definition findTasks :: "Scanner \<Rightarrow> u64 \<Rightarrow> Hash \<Rightarrow> u64 list \<times> (error + Task list)" where
  "findTasks s paraBlock paraHash =
     (case NewBasicInboundChannel (ethConn s) of
        Some err \<Rightarrow> ([], Inl err)
      | None \<Rightarrow>
     (case findNonces s paraHash (accounts s) Map.empty of
        Inl err \<Rightarrow> ([], Inl err)
      | Inr basicChannelAccountNoncesToFind \<Rightarrow>
          if dom basicChannelAccountNoncesToFind = {} then ([], Inr [])
          else
            (case findTasksImpl s paraBlock basicChannelAccountNoncesToFind of
               (visited, Inl err) \<Rightarrow> (visited, Inl err)
             | (visited, Inr tasks) \<Rightarrow> (visited, Inr (fst (gatherProofInputs s tasks))))))"

definition Scan :: "Scanner \<Rightarrow> u64 \<Rightarrow> u64 list \<times> (error + Task list)" where
  "Scan s beefyBlockNumber =
     (case relay_GetBlockHash (relayConn s) (beefyBlockNumber - 1) of
        Inl err \<Rightarrow> ([], Inl (Wrapf ''fetch block hash for block'' err))
      | Inr beefyBlockMinusOneHash \<Rightarrow>
     (case FetchParachainHead (relayConn s) beefyBlockMinusOneHash (paraID s) of
        Inl err \<Rightarrow> ([], Inl (Wrapf ''fetch head for parachain at block'' err))
      | Inr None \<Rightarrow> ([], Inl (Errorf ''parachain is not registered''))
      | Inr (Some paraHead) \<Rightarrow>
          (let paraBlockNumber = ucast (Number paraHead) in
           (case para_GetBlockHash (paraConn s) paraBlockNumber of
              Inl err \<Rightarrow> ([], Inl (Wrapf ''fetch parachain block hash for block'' err))
            | Inr paraBlockHash \<Rightarrow> findTasks s paraBlockNumber paraBlockHash))))"

section \<open>Predicates of the statements\<close>


text \<open>
  The parachain node answers consistently for block \<open>b\<close>: the header it returns for the
  hash of block number \<open>b\<close>, if any, carries the number \<open>b\<close>.
\<close>

definition headerNumberMatches :: "Scanner \<Rightarrow> u64 \<Rightarrow> bool" where
  "headerNumberMatches s b =
     (case para_GetBlockHash (paraConn s) b of
        Inl err \<Rightarrow> True
      | Inr blockHash \<Rightarrow>
          (case para_GetHeader (paraConn s) blockHash of
             Inl err \<Rightarrow> True
           | Inr header \<Rightarrow> ucast (Number header) = b))"

text \<open>The block number of a task's header, widened as the code does it.\<close>

definition blockNumber :: "Task \<Rightarrow> u64" where
  "blockNumber t = ucast (Number (Header t))"

text \<open>
  What the walk knows about the tasks it has appended before it reaches block \<open>cur\<close>:
  their block numbers descend strictly, none exceeds \<open>cur\<close>, and no proof input is set.
\<close>

definition newTasks :: "u64 \<Rightarrow> Task list \<Rightarrow> bool" where
  "newTasks cur new \<longleftrightarrow>
     sorted_wrt (>) (map blockNumber new) \<and>
     (\<forall>t \<in> set new. blockNumber t \<le> cur \<and> ProofInput t = None)"

text \<open>
  What a proof input says about the header of its task: it names the scanner's parachain,
  the head registered for that parachain at its relay block has the header's number, and
  its heads are the ones the relay chain reports at that block.
\<close>

definition inclusionWitness :: "Scanner \<Rightarrow> Header \<Rightarrow> ProofInput \<Rightarrow> bool" where
  "inclusionWitness s header input =
     (ParaID input = paraID s \<and>
      (case relay_GetBlockHash (relayConn s) (RelayBlockNumber input) of
         Inl err \<Rightarrow> False
       | Inr relayBlockHash \<Rightarrow>
           (case FetchParachainHead (relayConn s) relayBlockHash (paraID s) of
              Inr (Some paraHead) \<Rightarrow> Number paraHead = Number header
            | _ \<Rightarrow> False) \<and>
           FetchParachainHeads (relayConn s) relayBlockHash = Inr (ParaHeads input)))"

section \<open>Example chains\<close>

text \<open>
  A small parachain, relay chain and Ethereum side on which the functions above are run.
  Block hashes are the block numbers. Accounts 1 and 2 are watched; Ethereum has delivered
  nonces 5 and 3, the parachain has generated 7 and 4. Block 3 commits bundles with nonce 7
  for account 1 and nonce 4 for account 2 under the commitment hash 195, block 1 commits
  the bundle with nonce 6 for account 1 under the hash 193, block 2 commits nothing.
  Block 1 was authored against relay block 10 and is the registered head at relay blocks
  12 to 20; block 3 was authored against relay block 20 and is the head from relay block
  21 on. The parachain has the id 1000 and is the only one registered.
\<close>

definition exBundle :: "AccountID \<Rightarrow> nat \<Rightarrow> BasicOutboundChannelMessageBundle" where
  "exBundle a n = \<lparr>Account = a, Nonce = n, Messages = []\<rparr>"

definition exProof :: "AccountID \<Rightarrow> nat \<Rightarrow> Hash \<Rightarrow> BundleProof" where
  "exProof a n h = \<lparr>Bundle = exBundle a n, Proof = \<lparr>Root = h, InnerHashes = []\<rparr>\<rparr>"

definition exState :: "AccountID set \<Rightarrow> BundleProof list \<Rightarrow> bool \<Rightarrow> scanState" where
  "exState accs ps d =
     \<lparr>basicChannelScanAccounts = accs, basicChannelProofs = ps, scanBasicChannelDone = d\<rparr>"

definition exNonces :: "AccountID \<rightharpoonup> u64" where
  "exNonces = [1 \<mapsto> 6, 2 \<mapsto> 4]"

definition exDigest :: "u32 \<Rightarrow> Bytes list" where
  "exDigest n = (if n = 3 then [[1, 195]] else if n = 1 then [[1, 193]] else [])"

definition exHeader :: "u32 \<Rightarrow> Header" where
  "exHeader n = \<lparr>ParentHash = 0, Number = n, StateRoot = 0, ExtrinsicsRoot = 0,
                  Digest = exDigest n\<rparr>"

definition exItem :: "Bytes \<Rightarrow> AuxiliaryDigestItem" where
  "exItem bs = (case bs of [c, h] \<Rightarrow> \<lparr>IsCommitment = (c = 1), AsCommitment_Hash = ucast h\<rparr>
                 | _ \<Rightarrow> \<lparr>IsCommitment = False, AsCommitment_Hash = 0\<rparr>)"

definition exParaConn :: ParaConn where
  "exParaConn =
     \<lparr>para_GetBlockHash = (\<lambda>n. Inr (ucast n)),
      para_GetHeader = (\<lambda>h. Inr (exHeader (ucast h))),
      CreateStorageKey_Nonce = (\<lambda>a. Inr [ucast a]),
      CreateStorageKey_ValidationData = Inr [],
      GetStorage_Nonce =
        (\<lambda>key h. Inr (if key = [1] then Some 7 else if key = [2] then Some 4 else None)),
      GetStorage_ValidationData = (\<lambda>key h. Inr (Some
         \<lparr>ParentHead = [], RelayParentNumber = (if h = 1 then 10 else 20),
          RelayParentStorageRoot = 0, MaxPOVSize = 0\<rparr>)),
      EncodeToHexString =
        (\<lambda>h. Inr (if h = 195 then ''c3'' else if h = 193 then ''c1'' else ''00'')),
      getMerkleProof = (\<lambda>hex i. Inr hex),
      DecodeFromHexString =
        (\<lambda>hex. Inr (if hex = ''c3'' then [195] else if hex = ''c1'' then [193] else [0])),
      NewMerkleProof =
        (\<lambda>raw. Inr \<lparr>Root = (case raw of [r] \<Rightarrow> ucast r | _ \<Rightarrow> 0), InnerHashes = []\<rparr>),
      ExtractAuxiliaryDigestItems = (\<lambda>d. Inr (map exItem d))\<rparr>"

definition exRelayHead :: "Hash \<Rightarrow> Header" where
  "exRelayHead h = exHeader (if h < 12 then 0 else if h < 21 then 1 else 3)"

definition exRelayConn :: RelayConn where
  "exRelayConn =
     \<lparr>relay_GetBlockHash = (\<lambda>n. Inr (ucast n)),
      FetchParachainHead = (\<lambda>h pid. Inr (if pid = 1000 then Some (exRelayHead h) else None)),
      FetchParachainHeads = (\<lambda>h. Inr [exRelayHead h])\<rparr>"

definition exEvents :: "Hash \<Rightarrow> BasicOutboundChannelEvent option" where
  "exEvents h =
     (if h = 3 then Some \<lparr>Hash = 195, Bundles = [exBundle 1 7, exBundle 2 4]\<rparr>
      else if h = 1 then Some \<lparr>Hash = 193, Bundles = [exBundle 1 6]\<rparr>
      else None)"

definition exScanner :: Scanner where
  "exScanner =
     \<lparr>ethConn = \<lparr>NewBasicInboundChannel = None,
                 eth_Nonce = (\<lambda>a. Inr (if a = 1 then 5 else 3))\<rparr>,
      relayConn = exRelayConn,
      paraConn = exParaConn,
      paraID = 1000,
      QueryEvent = (\<lambda>h. Inr (exEvents h)),
      accounts = [1, 2]\<rparr>"

text \<open>The tasks and proof inputs the scan of the example produces.\<close>

definition exTask :: "u32 \<Rightarrow> BundleProof list \<Rightarrow> ProofInput option \<Rightarrow> Task" where
  "exTask n ps input =
     \<lparr>Header = exHeader n, BasicChannelProofs = ps, ProofInput = input, ProofOutput = None\<rparr>"

definition exInput :: "u64 \<Rightarrow> u32 \<Rightarrow> ProofInput" where
  "exInput r n = \<lparr>ParaID = 1000, RelayBlockNumber = r, ParaHeads = [exHeader n]\<rparr>"

subsection \<open>Variants of the example\<close>

text \<open>The same parachain, where the proof fetched for the bundle at index 0 has root 0.\<close>

definition exBadRootConn :: ParaConn where
  "exBadRootConn = exParaConn\<lparr>getMerkleProof := (\<lambda>hex i. Inr (if i = 0 then ''00'' else hex))\<rparr>"

text \<open>No block has a \<open>Committed\<close> event; every block has one with the hash 0.\<close>

definition exNoEventScanner :: Scanner where
  "exNoEventScanner = exScanner\<lparr>QueryEvent := (\<lambda>h. Inr None)\<rparr>"

definition exWrongHashScanner :: Scanner where
  "exWrongHashScanner = exScanner\<lparr>QueryEvent := (\<lambda>h. Inr (Some \<lparr>Hash = 0, Bundles = []\<rparr>))\<rparr>"

text \<open>
  A chain whose block 3 has the given digest items and whose \<open>Committed\<close> event at
  block 3 holds the given bundles under the hash 195; no other block commits, and the relay
  chain registers these headers. Accounts, nonces and inclusion are those of the example.
\<close>

definition exItemsHeader :: "Bytes list \<Rightarrow> u32 \<Rightarrow> Header" where
  "exItemsHeader items n = (exHeader n)\<lparr>Digest := (if n = 3 then items else [])\<rparr>"

definition exItemsScanner ::
  "Bytes list \<Rightarrow> BasicOutboundChannelMessageBundle list \<Rightarrow> Scanner" where
  "exItemsScanner items bundles =
     \<lparr>ethConn = \<lparr>NewBasicInboundChannel = None,
                 eth_Nonce = (\<lambda>a. Inr (if a = 1 then 5 else 3))\<rparr>,
      relayConn =
        \<lparr>relay_GetBlockHash = (\<lambda>n. Inr (ucast n)),
         FetchParachainHead = (\<lambda>h pid. Inr (if pid = 1000
            then Some (exItemsHeader items (Number (exRelayHead h))) else None)),
         FetchParachainHeads = (\<lambda>h. Inr [exItemsHeader items (Number (exRelayHead h))])\<rparr>,
      paraConn = exParaConn\<lparr>para_GetHeader := (\<lambda>h. Inr (exItemsHeader items (ucast h)))\<rparr>,
      paraID = 1000,
      QueryEvent = (\<lambda>h. Inr (if h = 3 then Some \<lparr>Hash = 195, Bundles = bundles\<rparr> else None)),
      accounts = [1, 2]\<rparr>"

definition exItemsTask :: "Bytes list \<Rightarrow> BundleProof list \<Rightarrow> Task" where
  "exItemsTask items ps =
     \<lparr>Header = exItemsHeader items 3, BasicChannelProofs = ps,
      ProofInput = Some \<lparr>ParaID = 1000, RelayBlockNumber = 21,
                          ParaHeads = [exItemsHeader items 3]\<rparr>,
      ProofOutput = None\<rparr>"





text \<open>
  The parachain node returns, for every block, the block's header with the number 5.
\<close>

definition exSameHeader :: "u32 \<Rightarrow> Header" where
  "exSameHeader n = (exHeader n)\<lparr>Number := 5\<rparr>"

definition exSameScanner :: Scanner where
  "exSameScanner =
     exScanner\<lparr>paraConn := exParaConn\<lparr>para_GetHeader := (\<lambda>h. Inr (exSameHeader (ucast h)))\<rparr>\<rparr>"

definition exSameTask :: "u32 \<Rightarrow> BundleProof list \<Rightarrow> Task" where
  "exSameTask n ps =
     \<lparr>Header = exSameHeader n, BasicChannelProofs = ps, ProofInput = None, ProofOutput = None\<rparr>"

text \<open>Ethereum has delivered nonce 7 for every account: nothing is missing.\<close>

definition exEqualScanner :: Scanner where
  "exEqualScanner =
     exScanner\<lparr>ethConn := \<lparr>NewBasicInboundChannel = None, eth_Nonce = (\<lambda>a. Inr 7)\<rparr>\<rparr>"

text \<open>
  The relay chain answers for block \<open>2^64 - 1\<close> as it does for block 30, or does not know
  that block.
\<close>

definition exWrapScanner :: Scanner where
  "exWrapScanner =
     exScanner\<lparr>relayConn := exRelayConn\<lparr>relay_GetBlockHash :=
        (\<lambda>n. if n = 18446744073709551615 then Inr 30 else relay_GetBlockHash exRelayConn n)\<rparr>\<rparr>"

definition exNoWrapScanner :: Scanner where
  "exNoWrapScanner =
     exScanner\<lparr>relayConn := exRelayConn\<lparr>relay_GetBlockHash :=
        (\<lambda>n. if n = 18446744073709551615 then Inl (Errorf ''unknown block'')
             else relay_GetBlockHash exRelayConn n)\<rparr>\<rparr>"

text \<open>
  The heads registered on the relay chain have the numbers of the parachain's blocks and
  another state root.
\<close>

definition exForkHead :: "Hash \<Rightarrow> Header" where
  "exForkHead h = (exRelayHead h)\<lparr>StateRoot := 1\<rparr>"

definition exForkScanner :: Scanner where
  "exForkScanner =
     exScanner\<lparr>relayConn :=
       \<lparr>relay_GetBlockHash = (\<lambda>n. Inr (ucast n)),
        FetchParachainHead = (\<lambda>h pid. Inr (if pid = 1000 then Some (exForkHead h) else None)),
        FetchParachainHeads = (\<lambda>h. Inr [exForkHead h])\<rparr>\<rparr>"

definition exForkInput :: "u64 \<Rightarrow> ProofInput" where
  "exForkInput r = \<lparr>ParaID = 1000, RelayBlockNumber = r, ParaHeads = [exForkHead (ucast r)]\<rparr>"

text \<open>The relay chain reports block 3 as the head at every relay block.\<close>

definition exLateScanner :: Scanner where
  "exLateScanner =
     exScanner\<lparr>relayConn := exRelayConn\<lparr>FetchParachainHead :=
        (\<lambda>h pid. Inr (if pid = 1000 then Some (exHeader 3) else None))\<rparr>\<rparr>"

section \<open>Properties\<close>

subsection \<open>Evaluation on the examples\<close>

text \<open>
  The equations that unfold the example chain and the scanner's functions on it; the
  concrete facts below are computed with them by the simplifier.
\<close>

lemmas ex_defs = exBundle_def exProof_def exState_def exNonces_def exDigest_def exHeader_def
  exItem_def exParaConn_def exRelayHead_def exRelayConn_def exEvents_def exScanner_def
  exTask_def exInput_def

lemmas run_defs = processDigestItem_def scanForBasicChannelProofs_def scanBundle_def
  fetchBundleProof_def markAccountScanDone_def nonceOf_def Uint64_def checkingHeader_def
  sortTasks_def findTasksLoop.simps Let_def insert_Diff_if word_le_nat_alt word_less_nat_alt

lemmas scan_defs = Scan_def findTasks_def findTasksImpl_def findInclusionBlockNumber_def
  inclusionLoop.simps FinalizationTimeout_def

subsection \<open>The bundle scan\<close>

lemma fetchBundleProof_Bundle:
  "fetchBundleProof api h i b = Inr p \<Longrightarrow> Bundle p = b"
  by (auto simp: fetchBundleProof_def split: sum.splits)

lemma scanBundle_step:
  assumes "scanBundle api h nonces i b st = Inr st'"
  shows "basicChannelScanAccounts st' \<subseteq> basicChannelScanAccounts st \<and>
         (basicChannelProofs st' = basicChannelProofs st \<or>
          (\<exists>p. basicChannelProofs st' = basicChannelProofs st @ [p] \<and> Bundle p = b \<and>
               Root (Proof p) = h \<and> Account b \<in> basicChannelScanAccounts st \<and>
               nonceOf nonces (Account b) \<le> Uint64 (Nonce b)))"
  using assms
  by (auto simp: scanBundle_def Let_def markAccountScanDone_def fetchBundleProof_Bundle
      split: if_splits sum.splits)

lemma scanBundles_inv:
  assumes "scanBundles api h nonces i bs st = Inr st'"
  shows "basicChannelScanAccounts st' \<subseteq> basicChannelScanAccounts st \<and>
         (\<exists>ps. basicChannelProofs st' = basicChannelProofs st @ ps \<and>
            (\<forall>p \<in> set ps. Bundle p \<in> set bs \<and> Root (Proof p) = h \<and>
               Account (Bundle p) \<in> basicChannelScanAccounts st \<and>
               nonceOf nonces (Account (Bundle p)) \<le> Uint64 (Nonce (Bundle p))))"
  using assms
proof (induction bs arbitrary: i st)
  case Nil
  then show ?case by simp
next
  case (Cons b bs)
  from Cons.prems obtain st1 where
    s1: "scanBundle api h nonces i b st = Inr st1" and
    s2: "scanBundles api h nonces (Suc i) bs st1 = Inr st'"
    by (auto split: sum.splits)
  from scanBundle_step [OF s1] Cons.IH [OF s2] show ?case
    by (elim conjE disjE exE) (fastforce+)
qed

lemma scanBundle_skip:
  "Account b \<notin> basicChannelScanAccounts st \<Longrightarrow> scanBundle api h nonces i b st = Inr st"
  by (simp add: scanBundle_def)

lemma scanBundle_below:
  "Account b \<in> basicChannelScanAccounts st \<Longrightarrow> Uint64 (Nonce b) < nonceOf nonces (Account b) \<Longrightarrow>
   scanBundle api h nonces i b st =
     Inr (st\<lparr>basicChannelScanAccounts := basicChannelScanAccounts st - {Account b},
             scanBasicChannelDone := (basicChannelScanAccounts st - {Account b} = {})\<rparr>)"
  by (simp add: scanBundle_def Let_def markAccountScanDone_def)

lemma scanBundle_above:
  "Account b \<in> basicChannelScanAccounts st \<Longrightarrow> nonceOf nonces (Account b) < Uint64 (Nonce b) \<Longrightarrow>
   fetchBundleProof api h i b = Inr p \<Longrightarrow> Root (Proof p) = h \<Longrightarrow>
   scanBundle api h nonces i b st = Inr (st\<lparr>basicChannelProofs := basicChannelProofs st @ [p]\<rparr>)"
  by (auto simp: scanBundle_def Let_def markAccountScanDone_def)

lemma scanBundle_equal:
  "Account b \<in> basicChannelScanAccounts st \<Longrightarrow> Uint64 (Nonce b) = nonceOf nonces (Account b) \<Longrightarrow>
   fetchBundleProof api h i b = Inr p \<Longrightarrow> Root (Proof p) = h \<Longrightarrow>
   scanBundle api h nonces i b st =
     Inr (st\<lparr>basicChannelScanAccounts := basicChannelScanAccounts st - {Account b},
             basicChannelProofs := basicChannelProofs st @ [p],
             scanBasicChannelDone := (basicChannelScanAccounts st - {Account b} = {})\<rparr>)"
  by (auto simp: scanBundle_def Let_def markAccountScanDone_def)

text \<open>
  Claim C3, as amended. One iteration of the bundle loop, for a bundle \<open>b\<close> and the
  target \<open>nonceOf nonces (Account b)\<close>: a bundle whose account is not being searched is
  skipped; a nonce below the target marks the account done and collects nothing; a nonce
  above the target, when the proof was fetched and its root is the digest item's hash,
  collects the proof and leaves the account searching; a nonce equal to the target, under
  the same condition, collects the proof and marks the account done. Every proof that
  \<open>scanForBasicChannelProofs\<close> returns is for a bundle of the event whose account was
  being searched and whose nonce is at least its target. Nonces are compared as the
  64-bit values read by \<open>Uint64\<close>.
\<close>

theorem scanForBasicChannelProofs_nonce_cases:
  "(Account b \<notin> basicChannelScanAccounts st \<longrightarrow> scanBundle api h nonces i b st = Inr st) \<and>
   (Account b \<in> basicChannelScanAccounts st \<and> Uint64 (Nonce b) < nonceOf nonces (Account b) \<longrightarrow>
      scanBundle api h nonces i b st =
        Inr (st\<lparr>basicChannelScanAccounts := basicChannelScanAccounts st - {Account b},
                scanBasicChannelDone := (basicChannelScanAccounts st - {Account b} = {})\<rparr>)) \<and>
   (Account b \<in> basicChannelScanAccounts st \<and> nonceOf nonces (Account b) < Uint64 (Nonce b) \<and>
    fetchBundleProof api h i b = Inr p \<and> Root (Proof p) = h \<longrightarrow>
      scanBundle api h nonces i b st =
        Inr (st\<lparr>basicChannelProofs := basicChannelProofs st @ [p]\<rparr>)) \<and>
   (Account b \<in> basicChannelScanAccounts st \<and> Uint64 (Nonce b) = nonceOf nonces (Account b) \<and>
    fetchBundleProof api h i b = Inr p \<and> Root (Proof p) = h \<longrightarrow>
      scanBundle api h nonces i b st =
        Inr (st\<lparr>basicChannelScanAccounts := basicChannelScanAccounts st - {Account b},
                basicChannelProofs := basicChannelProofs st @ [p],
                scanBasicChannelDone := (basicChannelScanAccounts st - {Account b} = {})\<rparr>)) \<and>
   (scanForBasicChannelProofs api h nonces scanAccounts bundles = Inr result \<longrightarrow>
      (\<forall>q \<in> set (basicChannelProofs result).
         Bundle q \<in> set bundles \<and> Account (Bundle q) \<in> scanAccounts \<and>
         nonceOf nonces (Account (Bundle q)) \<le> Uint64 (Nonce (Bundle q))))"
proof (intro conjI impI)
  assume r: "scanForBasicChannelProofs api h nonces scanAccounts bundles = Inr result"
  from scanBundles_inv [OF r [unfolded scanForBasicChannelProofs_def]]
  show "\<forall>q \<in> set (basicChannelProofs result).
         Bundle q \<in> set bundles \<and> Account (Bundle q) \<in> scanAccounts \<and>
         nonceOf nonces (Account (Bundle q)) \<le> Uint64 (Nonce (Bundle q))"
    by auto
qed (simp_all add: scanBundle_skip scanBundle_below scanBundle_above scanBundle_equal)

theorem scanForBasicChannelProofs_nonce_cases_witness:
  "scanBundle exParaConn 195 exNonces 0 (exBundle 3 9) (exState {1, 2} [] False)
     = Inr (exState {1, 2} [] False) \<and>
   scanBundle exParaConn 195 exNonces 0 (exBundle 1 5) (exState {1, 2} [] False)
     = Inr (exState {2} [] False) \<and>
   scanBundle exParaConn 195 exNonces 0 (exBundle 1 7) (exState {1, 2} [] False)
     = Inr (exState {1, 2} [exProof 1 7 195] False) \<and>
   scanBundle exParaConn 195 exNonces 1 (exBundle 2 4) (exState {2} [exProof 1 7 195] False)
     = Inr (exState {} [exProof 1 7 195, exProof 2 4 195] True) \<and>
   scanForBasicChannelProofs exParaConn 195 exNonces {1, 2} [exBundle 1 7, exBundle 2 4]
     = Inr (exState {1} [exProof 1 7 195, exProof 2 4 195] False) \<and>
   nonceOf exNonces 1 \<le> Uint64 7 \<and> nonceOf exNonces 2 \<le> Uint64 4"
  using scanForBasicChannelProofs_nonce_cases
          [of "exBundle 3 9" "exState {1, 2} [] False" exParaConn 195 exNonces 0
              "exProof 3 9 195" "{1, 2}" "[exBundle 1 7, exBundle 2 4]"
              "exState {1} [exProof 1 7 195, exProof 2 4 195] False"]
        scanForBasicChannelProofs_nonce_cases
          [of "exBundle 1 5" "exState {1, 2} [] False" exParaConn 195 exNonces 0
              "exProof 1 5 195" "{}" "[]" "exState {} [] False"]
        scanForBasicChannelProofs_nonce_cases
          [of "exBundle 1 7" "exState {1, 2} [] False" exParaConn 195 exNonces 0
              "exProof 1 7 195" "{}" "[]" "exState {} [] False"]
        scanForBasicChannelProofs_nonce_cases
          [of "exBundle 2 4" "exState {2} [exProof 1 7 195] False" exParaConn 195 exNonces 1
              "exProof 2 4 195" "{}" "[]" "exState {} [] False"]
  by (simp add: ex_defs run_defs)

text \<open>
  The claim without the condition on the proof: the bundle of account 1 has nonce 7,
  above the target 6, but the fetched proof has root 0 instead of 195. No proof is
  collected and account 1 is no longer searched.
\<close>

theorem scanForBasicChannelProofs_nonce_cases_counterexample:
  "Account (exBundle 1 7) \<in> basicChannelScanAccounts (exState {1, 2} [] False) \<and>
   nonceOf exNonces (Account (exBundle 1 7)) < Uint64 (Nonce (exBundle 1 7)) \<and>
   fetchBundleProof exBadRootConn 195 0 (exBundle 1 7) = Inr (exProof 1 7 0) \<and>
   scanBundle exBadRootConn 195 exNonces 0 (exBundle 1 7) (exState {1, 2} [] False)
     = Inr (exState {2} [] False) \<and>
   scanForBasicChannelProofs exBadRootConn 195 exNonces {1, 2} [exBundle 1 7]
     = Inr (exState {2} [] False)"
  by (simp add: ex_defs run_defs exBadRootConn_def)

subsection \<open>Digest items of a block\<close>

lemma processDigestItems_append:
  "processDigestItems s nonces events (xs @ ys) st =
     (case processDigestItems s nonces events xs st of
        Inl err \<Rightarrow> Inl err
      | Inr st1 \<Rightarrow> processDigestItems s nonces events ys st1)"
  by (induction xs arbitrary: st) (auto split: sum.splits)

lemma findTasksLoop_item_error:
  assumes "\<not> scanDone" "0 < currentBlockNumber"
    "para_GetBlockHash (paraConn s) currentBlockNumber = Inr blockHash"
    "para_GetHeader (paraConn s) blockHash = Inr header"
    "ExtractAuxiliaryDigestItems (paraConn s) (Digest header) = Inr digestItems"
    "digestItems \<noteq> []"
    "QueryEvent s blockHash = Inr events"
    "processDigestItems s nonces events digestItems
      \<lparr>basicChannelScanAccounts = scanAccounts, basicChannelProofs = [],
       scanBasicChannelDone = scanDone\<rparr> = Inl err"
  shows "findTasksLoop s nonces currentBlockNumber scanAccounts scanDone tasks =
           ([currentBlockNumber], Inl err)"
  using assms by (simp add: findTasksLoop.simps [of s nonces currentBlockNumber])

text \<open>
  Claim C5. A commitment digest item reached while the done flag is false fails with the
  first error below when the block has no \<open>Committed\<close> event and with the second when
  the event's hash differs from the item's hash. In the walk: if the items before such an
  item of the visited block were processed and accounts are still searched, the walk
  returns that error and no tasks.
\<close>

theorem commitment_without_matching_event_fails:
  "(IsCommitment item \<and> \<not> scanBasicChannelDone st \<longrightarrow>
      processDigestItem s nonces None item st =
        Inl (Errorf ''event basicOutboundChannel.Committed not found in block'') \<and>
      (Hash ev \<noteq> AsCommitment_Hash item \<longrightarrow>
         processDigestItem s nonces (Some ev) item st =
           Inl (Errorf ''basic channel commitment hash in digest item does not match the one in the Committed event''))) \<and>
   (\<not> scanDone \<and> 0 < currentBlockNumber \<and>
    para_GetBlockHash (paraConn s) currentBlockNumber = Inr blockHash \<and>
    para_GetHeader (paraConn s) blockHash = Inr header \<and>
    ExtractAuxiliaryDigestItems (paraConn s) (Digest header) = Inr (pre @ item # post) \<and>
    QueryEvent s blockHash = Inr events \<and>
    processDigestItems s nonces events pre
      \<lparr>basicChannelScanAccounts = scanAccounts, basicChannelProofs = [],
       scanBasicChannelDone = scanDone\<rparr> = Inr st \<and>
    IsCommitment item \<and> \<not> scanBasicChannelDone st \<longrightarrow>
      (events = None \<longrightarrow>
         findTasksLoop s nonces currentBlockNumber scanAccounts scanDone tasks =
           ([currentBlockNumber],
            Inl (Errorf ''event basicOutboundChannel.Committed not found in block''))) \<and>
      (events = Some ev \<and> Hash ev \<noteq> AsCommitment_Hash item \<longrightarrow>
         findTasksLoop s nonces currentBlockNumber scanAccounts scanDone tasks =
           ([currentBlockNumber],
            Inl (Errorf ''basic channel commitment hash in digest item does not match the one in the Committed event''))))"
proof (intro conjI impI; (elim conjE)?)
  assume a: "\<not> scanDone" "0 < currentBlockNumber"
    "para_GetBlockHash (paraConn s) currentBlockNumber = Inr blockHash"
    "para_GetHeader (paraConn s) blockHash = Inr header"
    "ExtractAuxiliaryDigestItems (paraConn s) (Digest header) = Inr (pre @ item # post)"
    "QueryEvent s blockHash = Inr events"
    "processDigestItems s nonces events pre
      \<lparr>basicChannelScanAccounts = scanAccounts, basicChannelProofs = [],
       scanBasicChannelDone = scanDone\<rparr> = Inr st"
    "IsCommitment item" "\<not> scanBasicChannelDone st"
  {
    assume "events = None"
    with a have "processDigestItems s nonces events (pre @ item # post)
        \<lparr>basicChannelScanAccounts = scanAccounts, basicChannelProofs = [],
         scanBasicChannelDone = scanDone\<rparr> =
      Inl (Errorf ''event basicOutboundChannel.Committed not found in block'')"
      by (simp add: processDigestItems_append processDigestItem_def)
    with a show "findTasksLoop s nonces currentBlockNumber scanAccounts scanDone tasks =
           ([currentBlockNumber],
            Inl (Errorf ''event basicOutboundChannel.Committed not found in block''))"
      by (simp add: findTasksLoop_item_error)
  }
  {
    assume "events = Some ev" "Hash ev \<noteq> AsCommitment_Hash item"
    with a have "processDigestItems s nonces events (pre @ item # post)
        \<lparr>basicChannelScanAccounts = scanAccounts, basicChannelProofs = [],
         scanBasicChannelDone = scanDone\<rparr> =
      Inl (Errorf ''basic channel commitment hash in digest item does not match the one in the Committed event'')"
      by (simp add: processDigestItems_append processDigestItem_def)
    with a show "findTasksLoop s nonces currentBlockNumber scanAccounts scanDone tasks =
           ([currentBlockNumber],
            Inl (Errorf ''basic channel commitment hash in digest item does not match the one in the Committed event''))"
      by (simp add: findTasksLoop_item_error)
  }
qed (simp_all add: processDigestItem_def)

theorem commitment_without_matching_event_fails_witness:
  "processDigestItem exNoEventScanner exNonces None (exItem [1, 195]) (exState {1, 2} [] False) =
     Inl (Errorf ''event basicOutboundChannel.Committed not found in block'') \<and>
   processDigestItem exWrongHashScanner exNonces (Some \<lparr>Hash = 0, Bundles = []\<rparr>)
       (exItem [1, 195]) (exState {1, 2} [] False) =
     Inl (Errorf ''basic channel commitment hash in digest item does not match the one in the Committed event'') \<and>
   findTasksLoop exNoEventScanner exNonces 3 {1, 2} False [] =
     ([3], Inl (Errorf ''event basicOutboundChannel.Committed not found in block'')) \<and>
   findTasksLoop exWrongHashScanner exNonces 3 {1, 2} False [] =
     ([3], Inl (Errorf ''basic channel commitment hash in digest item does not match the one in the Committed event''))"
  using commitment_without_matching_event_fails
          [of "exItem [1, 195]" "exState {1, 2} [] False" exNoEventScanner exNonces
              "\<lparr>Hash = 0, Bundles = []\<rparr>" False 3 3 "exHeader 3" "[]" "[]" None "{1, 2}" "[]"]
        commitment_without_matching_event_fails
          [of "exItem [1, 195]" "exState {1, 2} [] False" exWrongHashScanner exNonces
              "\<lparr>Hash = 0, Bundles = []\<rparr>" False 3 3 "exHeader 3" "[]" "[]"
              "Some \<lparr>Hash = 0, Bundles = []\<rparr>" "{1, 2}" "[]"]
  by (simp add: ex_defs exNoEventScanner_def exWrongHashScanner_def)

text \<open>
  Claim C2, evaluated on the code. Block 3 announces the commitment hash 195 in two digest
  items; the event holds a bundle with nonce 6 for account 1 and one with nonce 5 for
  account 2 (targets 6 and 4). The scan for the first item returns both proofs and marks
  account 1 done; the scan for the second item returns the proof for account 2 only, and
  the walk assigns it to the block's proof list: the task of block 3 carries that one proof
  and the proof for nonce 6 of account 1 is in no task. With one digest item the task
  carries both. When the event holds the bundle of account 1 only, two digest items leave
  no task at all, one digest item gives the task with its proof.
\<close>

theorem repeated_commitment_item_overwrites_proofs:
  "findNonces (exItemsScanner [[1, 195], [1, 195]] [exBundle 1 6, exBundle 2 5]) 3 [1, 2] Map.empty =
     Inr exNonces \<and>
   ExtractAuxiliaryDigestItems (paraConn (exItemsScanner [[1, 195], [1, 195]] [exBundle 1 6, exBundle 2 5]))
       (Digest (exItemsHeader [[1, 195], [1, 195]] 3)) =
     Inr [\<lparr>IsCommitment = True, AsCommitment_Hash = 195\<rparr>,
          \<lparr>IsCommitment = True, AsCommitment_Hash = 195\<rparr>] \<and>
   scanForBasicChannelProofs
       (paraConn (exItemsScanner [[1, 195], [1, 195]] [exBundle 1 6, exBundle 2 5]))
       195 exNonces {1, 2} [exBundle 1 6, exBundle 2 5] =
     Inr (exState {2} [exProof 1 6 195, exProof 2 5 195] False) \<and>
   scanForBasicChannelProofs
       (paraConn (exItemsScanner [[1, 195], [1, 195]] [exBundle 1 6, exBundle 2 5]))
       195 exNonces {2} [exBundle 1 6, exBundle 2 5] =
     Inr (exState {2} [exProof 2 5 195] False) \<and>
   Scan (exItemsScanner [[1, 195], [1, 195]] [exBundle 1 6, exBundle 2 5]) 31 =
     ([3, 2, 1], Inr [exItemsTask [[1, 195], [1, 195]] [exProof 2 5 195]]) \<and>
   Scan (exItemsScanner [[1, 195]] [exBundle 1 6, exBundle 2 5]) 31 =
     ([3, 2, 1], Inr [exItemsTask [[1, 195]] [exProof 1 6 195, exProof 2 5 195]]) \<and>
   Scan (exItemsScanner [[1, 195], [1, 195]] [exBundle 1 6]) 31 = ([3, 2, 1], Inr []) \<and>
   Scan (exItemsScanner [[1, 195]] [exBundle 1 6]) 31 =
     ([3, 2, 1], Inr [exItemsTask [[1, 195]] [exProof 1 6 195]])"
  by (simp add: ex_defs run_defs scan_defs exItemsScanner_def exItemsHeader_def exItemsTask_def)


subsection \<open>The walk\<close>










subsection \<open>Order of the tasks\<close>

lemma newTasks_Nil: "newTasks cur []"
  by (simp add: newTasks_def)

lemma word_pred_less:
  fixes cur :: u64
  assumes "0 < cur" "x \<le> cur - 1"
  shows "x < cur"
proof -
  from assms(1) have "unat (cur - 1) = unat cur - 1" "0 < unat cur"
    by (simp_all add: unat_minus_one word_gt_0 unat_gt_0)
  moreover from assms(2) have "unat x \<le> unat (cur - 1)"
    by (simp add: word_le_nat_alt)
  ultimately show ?thesis
    by (simp add: word_less_nat_alt)
qed

lemma newTasks_pred:
  assumes "0 < cur" "newTasks (cur - 1) new"
  shows "newTasks cur new"
proof -
  from assms(2) have "\<forall>t \<in> set new. blockNumber t \<le> cur - 1"
    by (simp add: newTasks_def)
  with assms(1) have "\<forall>t \<in> set new. blockNumber t < cur"
    using word_pred_less by blast
  then have "\<forall>t \<in> set new. blockNumber t \<le> cur"
    by (simp add: order.strict_implies_order)
  with assms(2) show ?thesis
    by (simp add: newTasks_def)
qed

lemma newTasks_Cons:
  assumes "0 < cur" "blockNumber t = cur" "ProofInput t = None" "newTasks (cur - 1) new"
  shows "newTasks cur (t # new)"
proof -
  from assms(4) have "\<forall>u \<in> set new. blockNumber u \<le> cur - 1"
    by (simp add: newTasks_def)
  with assms(1) have "\<forall>u \<in> set new. blockNumber u < cur"
    using word_pred_less by blast
  with newTasks_pred [OF assms(1,4)] assms(2,3) show ?thesis
    by (simp add: newTasks_def)
qed

lemma findTasksLoop_tasks:
  assumes "snd (findTasksLoop s nonces cur accs d tasks) = Inr ts"
    and "\<forall>b \<in> set (fst (findTasksLoop s nonces cur accs d tasks)). headerNumberMatches s b"
  shows "\<exists>new. ts = sortTasks (tasks @ new) \<and> newTasks cur new"
  using assms
proof (induction s nonces cur accs d tasks arbitrary: ts rule: findTasksLoop.induct)
  case (1 s nonces cur accs d tasks)
  show ?case
  proof (cases "\<not> d \<and> 0 < cur")
    case False
    with "1.prems"(1) have "ts = sortTasks tasks"
      by (subst (asm) findTasksLoop.simps) auto
    then show ?thesis
      by (intro exI [of _ "[]"]) (simp add: newTasks_Nil)
  next
    case True
    from True "1.prems"(1) obtain blockHash header digestItems where
      o: "para_GetBlockHash (paraConn s) cur = Inr blockHash"
         "para_GetHeader (paraConn s) blockHash = Inr header"
         "ExtractAuxiliaryDigestItems (paraConn s) (Digest header) = Inr digestItems"
      by (subst (asm) findTasksLoop.simps) (auto split: sum.splits)
    show ?thesis
    proof (cases "digestItems = []")
      case empty: True
      from True o empty have eq: "findTasksLoop s nonces cur accs d tasks =
          checkingHeader cur (findTasksLoop s nonces (cur - 1) accs d tasks)"
        by (subst findTasksLoop.simps) simp
      from "1.prems" have
        "snd (findTasksLoop s nonces (cur - 1) accs d tasks) = Inr ts"
        "\<forall>b \<in> set (fst (findTasksLoop s nonces (cur - 1) accs d tasks)). headerNumberMatches s b"
        by (simp_all add: eq checkingHeader_def)
      from "1.IH"(1) [OF True o empty this] obtain new where
        "ts = sortTasks (tasks @ new)" "newTasks (cur - 1) new" by blast
      with True show ?thesis by (auto intro: newTasks_pred)
    next
      case nonempty: False
      from True o nonempty "1.prems"(1) obtain events st where
        p: "QueryEvent s blockHash = Inr events"
           "processDigestItems s nonces events digestItems
              \<lparr>basicChannelScanAccounts = accs, basicChannelProofs = [],
               scanBasicChannelDone = d\<rparr> = Inr st"
        by (subst (asm) findTasksLoop.simps) (auto split: sum.splits)
      let ?t = "\<lparr>Header = header, BasicChannelProofs = basicChannelProofs st,
                 ProofInput = None, ProofOutput = None\<rparr>"
      let ?tasks = "if basicChannelProofs st \<noteq> [] then tasks @ [?t] else tasks"
      let ?rec = "findTasksLoop s nonces (cur - 1) (basicChannelScanAccounts st)
                    (scanBasicChannelDone st) ?tasks"
      from True o nonempty p have eq: "findTasksLoop s nonces cur accs d tasks =
          checkingHeader cur ?rec"
        by (subst findTasksLoop.simps) simp
      from "1.prems" have r: "snd ?rec = Inr ts" "\<forall>b \<in> set (fst ?rec). headerNumberMatches s b"
        and m: "headerNumberMatches s cur"
        by (simp_all add: eq checkingHeader_def)
      from m o have num: "blockNumber ?t = cur"
        by (simp add: headerNumberMatches_def blockNumber_def)
      from "1.IH"(2) [OF True o nonempty p r] obtain new where
        new: "ts = sortTasks (?tasks @ new)" "newTasks (cur - 1) new" by blast
      show ?thesis
      proof (cases "basicChannelProofs st \<noteq> []")
        case True
        with new have "ts = sortTasks (tasks @ ?t # new)" by simp
        moreover from \<open>\<not> d \<and> 0 < cur\<close> num new(2) have "newTasks cur (?t # new)"
          by (intro newTasks_Cons) simp_all
        ultimately show ?thesis by blast
      next
        case False
        with new \<open>\<not> d \<and> 0 < cur\<close> show ?thesis by (auto intro: newTasks_pred)
      qed
    qed
  qed
qed

lemma gatherProofInputs_Header:
  "map Header (fst (gatherProofInputs s tasks)) = map Header tasks"
  by (induction tasks) (auto split: sum.splits simp: Let_def)

lemma findTasks_result:
  assumes "findTasks s paraBlock paraHash = (visited, Inr tasks)"
  shows "(visited = [] \<and> tasks = []) \<or>
         (\<exists>noncesToFind ts. findTasksImpl s paraBlock noncesToFind = (visited, Inr ts) \<and>
            tasks = fst (gatherProofInputs s ts))"
  using assms
  by (auto simp: findTasks_def split: option.splits sum.splits if_splits prod.splits)

lemma Scan_result:
  assumes "Scan s beefyBlockNumber = (visited, Inr tasks)"
  shows "\<exists>paraBlock paraHash. findTasks s paraBlock paraHash = (visited, Inr tasks)"
  using assms
  by (auto simp: Scan_def Let_def split: option.splits sum.splits)

lemma newTasks_distinct:
  assumes "newTasks cur new"
  shows "distinct (map (\<lambda>t. Number (Header t)) new)"
proof -
  from assms have "sorted_wrt (>) (map blockNumber new)" by (simp add: newTasks_def)
  then have "sorted_wrt (<) (rev (map blockNumber new))" by (simp add: sorted_wrt_rev)
  then have "distinct (rev (map blockNumber new))" by (simp add: strict_sorted_iff)
  then have "distinct (map blockNumber new)" by simp
  moreover have "map blockNumber new =
      map (\<lambda>n. ucast n :: u64) (map (\<lambda>t. Number (Header t)) new)"
    by (simp add: blockNumber_def)
  ultimately have "distinct (map (\<lambda>n. ucast n :: u64) (map (\<lambda>t. Number (Header t)) new))"
    by simp
  then show ?thesis by (simp add: distinct_map del: map_map)
qed

lemma sortTasks_sorted: "sorted (map (\<lambda>t. Number (Header t)) (sortTasks tasks))"
  by (simp add: sortTasks_def)

lemma sortTasks_distinct:
  "distinct (map (\<lambda>t. Number (Header t)) tasks) \<Longrightarrow>
   distinct (map (\<lambda>t. Number (Header t)) (sortTasks tasks))"
  by (simp add: sortTasks_def distinct_map)

lemma findTasksImpl_sorted:
  assumes "findTasksImpl s paraBlock nonces = (visited, Inr ts)"
  shows "sorted (map (\<lambda>t. Number (Header t)) ts)"
    and "\<forall>b \<in> set visited. headerNumberMatches s b \<Longrightarrow>
         sorted_wrt (<) (map (\<lambda>t. Number (Header t)) ts)"
    and "\<forall>b \<in> set visited. headerNumberMatches s b \<Longrightarrow> \<forall>t \<in> set ts. ProofInput t = None"
proof -
  let ?R = "findTasksLoop s nonces paraBlock (dom nonces) (dom nonces = {}) []"
  from assms have R: "snd ?R = Inr ts" "fst ?R = visited" by (simp_all add: findTasksImpl_def)
  have "\<exists>xs. snd (findTasksLoop s nonces cur accs d tasks) = Inr ts \<longrightarrow> ts = sortTasks xs"
    for cur accs d tasks
    by (induction s nonces cur accs d tasks rule: findTasksLoop.induct)
       (subst findTasksLoop.simps, auto simp: checkingHeader_def split: sum.splits)
  with R(1) show "sorted (map (\<lambda>t. Number (Header t)) ts)"
    using sortTasks_sorted by metis
  assume "\<forall>b \<in> set visited. headerNumberMatches s b"
  with R have "\<forall>b \<in> set (fst ?R). headerNumberMatches s b" by simp
  from findTasksLoop_tasks [OF R(1) this] obtain new where
    new: "ts = sortTasks new" "newTasks paraBlock new" by auto
  from newTasks_distinct [OF new(2)] have "distinct (map (\<lambda>t. Number (Header t)) ts)"
    unfolding new(1) by (rule sortTasks_distinct)
  with sortTasks_sorted [of new] new(1)
  show "sorted_wrt (<) (map (\<lambda>t. Number (Header t)) ts)"
    by (simp add: strict_sorted_iff)
  from new show "\<forall>t \<in> set ts. ProofInput t = None"
    by (simp add: newTasks_def sortTasks_def)
qed

text \<open>
  Claim C7, as amended. The tasks of a successful scan are sorted by ascending header
  number: for \<open>i < j\<close> the number of task \<open>i\<close> is at most the number of task
  \<open>j\<close>. When every header the walk fetched carries the number of the block it was
  fetched for, the numbers are strictly increasing.
\<close>

theorem scan_tasks_ascending:
  "(snd (Scan s beefyBlockNumber) = Inr tasks \<longrightarrow>
      sorted (map (\<lambda>t. Number (Header t)) tasks)) \<and>
   (snd (Scan s beefyBlockNumber) = Inr tasks \<and>
    (\<forall>b \<in> set (fst (Scan s beefyBlockNumber)). headerNumberMatches s b) \<longrightarrow>
      sorted_wrt (<) (map (\<lambda>t. Number (Header t)) tasks))"
proof (intro conjI impI; (elim conjE)?)
  assume r: "snd (Scan s beefyBlockNumber) = Inr tasks"
  then have "Scan s beefyBlockNumber = (fst (Scan s beefyBlockNumber), Inr tasks)"
    by (metis prod.collapse)
  from Scan_result [OF this] obtain paraBlock paraHash where
    "findTasks s paraBlock paraHash = (fst (Scan s beefyBlockNumber), Inr tasks)" by blast
  from findTasks_result [OF this] consider
    (empty) "tasks = []"
  | (walk) noncesToFind ts where
      "findTasksImpl s paraBlock noncesToFind = (fst (Scan s beefyBlockNumber), Inr ts)"
      "tasks = fst (gatherProofInputs s ts)"
    by blast
  note cases = this
  have h: "map (\<lambda>t. Number (Header t)) (fst (gatherProofInputs s ts)) =
           map (\<lambda>t. Number (Header t)) ts" for ts
    using gatherProofInputs_Header [of s ts, THEN arg_cong, of "map Number"] by (simp add: comp_def)
  from cases show "sorted (map (\<lambda>t. Number (Header t)) tasks)"
  proof cases
    case empty
    then show ?thesis by simp
  next
    case walk
    from findTasksImpl_sorted(1) [OF walk(1)] walk(2) show ?thesis by (simp add: h)
  qed
  assume m: "\<forall>b \<in> set (fst (Scan s beefyBlockNumber)). headerNumberMatches s b"
  from cases show "sorted_wrt (<) (map (\<lambda>t. Number (Header t)) tasks)"
  proof cases
    case empty
    then show ?thesis by simp
  next
    case walk
    from findTasksImpl_sorted(2) [OF walk(1) m] walk(2) show ?thesis by (simp add: h)
  qed
qed

theorem scan_tasks_ascending_witness:
  "Scan exScanner 31 =
     ([3, 2, 1],
      Inr [exTask 1 [exProof 1 6 193] (Some (exInput 12 1)),
           exTask 3 [exProof 1 7 195, exProof 2 4 195] (Some (exInput 21 3))]) \<and>
   headerNumberMatches exScanner 3 \<and> headerNumberMatches exScanner 2 \<and>
   headerNumberMatches exScanner 1 \<and>
   sorted_wrt (<) [Number (exHeader 1), Number (exHeader 3)]"
  using scan_tasks_ascending [of exScanner 31
          "[exTask 1 [exProof 1 6 193] (Some (exInput 12 1)),
            exTask 3 [exProof 1 7 195, exProof 2 4 195] (Some (exInput 21 3))]"]
  by (simp add: ex_defs run_defs scan_defs exTask_def exInput_def headerNumberMatches_def)

text \<open>
  The claim itself, strict for every successful scan, fails where the parachain node
  returns headers with one number for different blocks: the scan succeeds with two tasks
  whose headers both have the number 5. The code takes the number from the header it
  fetched and never compares it with the block number it asked for.
\<close>

theorem scan_tasks_ascending_counterexample:
  "Scan exSameScanner 31 =
     ([3, 2, 1],
      Inr [exSameTask 3 [exProof 1 7 195, exProof 2 4 195], exSameTask 1 [exProof 1 6 193]]) \<and>
   Number (Header (exSameTask 3 [exProof 1 7 195, exProof 2 4 195])) = 5 \<and>
   Number (Header (exSameTask 1 [exProof 1 6 193])) = 5 \<and>
   \<not> Number (Header (exSameTask 3 [exProof 1 7 195, exProof 2 4 195]))
       < Number (Header (exSameTask 1 [exProof 1 6 193])) \<and>
   \<not> headerNumberMatches exSameScanner 3"
  by (simp add: ex_defs run_defs scan_defs exSameScanner_def exSameHeader_def exSameTask_def
        headerNumberMatches_def)

subsection \<open>Nonce comparison and the entry point\<close>

lemma findNonces_map:
  "findNonces s paraHash accs m0 = Inr m \<Longrightarrow>
   (\<forall>a. a \<notin> set accs \<longrightarrow> m a = m0 a) \<and>
   (\<forall>a \<in> set accs. \<exists>e key stored.
      eth_Nonce (ethConn s) a = Inr e \<and> CreateStorageKey_Nonce (paraConn s) a = Inr key \<and>
      GetStorage_Nonce (paraConn s) key paraHash = Inr stored \<and>
      m a = (if e < (case stored of None \<Rightarrow> 0 | Some n \<Rightarrow> n) then Some (e + 1) else m0 a))"
proof (induction accs arbitrary: m0)
  case Nil
  then show ?case by simp
next
  case (Cons account rest)
  from Cons.prems obtain e key stored where
    o: "eth_Nonce (ethConn s) account = Inr e"
       "CreateStorageKey_Nonce (paraConn s) account = Inr key"
       "GetStorage_Nonce (paraConn s) key paraHash = Inr stored"
    by (auto split: sum.splits)
  let ?p = "case stored of None \<Rightarrow> 0 | Some n \<Rightarrow> n"
  let ?m1 = "if e < ?p then m0(account \<mapsto> e + 1) else m0"
  from Cons.prems o have "findNonces s paraHash rest ?m1 = Inr m"
    by (simp add: Let_def)
  from Cons.IH [OF this] have
    out: "\<And>a. a \<notin> set rest \<Longrightarrow> m a = ?m1 a" and
    ins: "\<And>a. a \<in> set rest \<Longrightarrow> \<exists>e' key' stored'.
      eth_Nonce (ethConn s) a = Inr e' \<and> CreateStorageKey_Nonce (paraConn s) a = Inr key' \<and>
      GetStorage_Nonce (paraConn s) key' paraHash = Inr stored' \<and>
      m a = (if e' < (case stored' of None \<Rightarrow> 0 | Some n \<Rightarrow> n) then Some (e' + 1) else ?m1 a)"
    by blast+
  show ?case
  proof (intro conjI allI ballI impI)
    fix a assume "a \<notin> set (account # rest)"
    with out [of a] show "m a = m0 a" by simp
  next
    fix a assume a: "a \<in> set (account # rest)"
    show "\<exists>e key stored.
      eth_Nonce (ethConn s) a = Inr e \<and> CreateStorageKey_Nonce (paraConn s) a = Inr key \<and>
      GetStorage_Nonce (paraConn s) key paraHash = Inr stored \<and>
      m a = (if e < (case stored of None \<Rightarrow> 0 | Some n \<Rightarrow> n) then Some (e + 1) else m0 a)"
    proof (cases "a \<in> set rest")
      case True
      from ins [OF True] obtain e' key' stored' where
        i: "eth_Nonce (ethConn s) a = Inr e'" "CreateStorageKey_Nonce (paraConn s) a = Inr key'"
           "GetStorage_Nonce (paraConn s) key' paraHash = Inr stored'"
           "m a = (if e' < (case stored' of None \<Rightarrow> 0 | Some n \<Rightarrow> n) then Some (e' + 1) else ?m1 a)"
        by blast
      show ?thesis
      proof (cases "a = account")
        case True
        with i o have "e' = e" "key' = key" "stored' = stored" by simp_all
        with i True o show ?thesis by auto
      next
        case False
        with i show ?thesis by auto
      qed
    next
      case False
      with a have "a = account" by simp
      with out [OF False] o show ?thesis by auto
    qed
  qed
qed

text \<open>
  Claim C6. When the loop over the configured accounts succeeds, the map it built holds
  exactly the configured accounts whose parachain nonce, read at the given parachain hash
  (absent storage reads as 0), exceeds the Ethereum nonce, each with the Ethereum nonce
  plus one, which does not wrap around. \<open>Scan\<close> runs that loop at the hash of the
  parachain head registered at relay block \<open>beefyBlockNumber - 1\<close>; when the map is empty
  it returns the empty task list and no block is visited, otherwise the blocks visited are
  those of the walk from that head.
\<close>

theorem nonce_mismatch_map:
  "(findNonces s paraHash (accounts s) Map.empty = Inr m \<longrightarrow>
      (\<forall>a. a \<notin> set (accounts s) \<longrightarrow> m a = None) \<and>
      (\<forall>a \<in> set (accounts s). \<exists>e key stored.
         eth_Nonce (ethConn s) a = Inr e \<and> CreateStorageKey_Nonce (paraConn s) a = Inr key \<and>
         GetStorage_Nonce (paraConn s) key paraHash = Inr stored \<and>
         m a = (if e < (case stored of None \<Rightarrow> 0 | Some n \<Rightarrow> n) then Some (e + 1) else None) \<and>
         (e < (case stored of None \<Rightarrow> 0 | Some n \<Rightarrow> n) \<longrightarrow> unat (e + 1) = Suc (unat e)))) \<and>
   (relay_GetBlockHash (relayConn s) (beefyBlockNumber - 1) = Inr relayHash \<and>
    FetchParachainHead (relayConn s) relayHash (paraID s) = Inr (Some paraHead) \<and>
    para_GetBlockHash (paraConn s) (ucast (Number paraHead)) = Inr paraHash \<and>
    NewBasicInboundChannel (ethConn s) = None \<and>
    findNonces s paraHash (accounts s) Map.empty = Inr m \<longrightarrow>
      findTasks s (ucast (Number paraHead)) paraHash = Scan s beefyBlockNumber \<and>
      (dom m = {} \<longrightarrow> Scan s beefyBlockNumber = ([], Inr [])) \<and>
      (dom m \<noteq> {} \<longrightarrow>
         fst (Scan s beefyBlockNumber) = fst (findTasksImpl s (ucast (Number paraHead)) m)))"
proof (intro conjI impI allI ballI; (elim conjE)?)
  fix a
  assume f: "findNonces s paraHash (accounts s) Map.empty = Inr m" and a: "a \<in> set (accounts s)"
  from findNonces_map [OF f] a obtain e key stored where
    i: "eth_Nonce (ethConn s) a = Inr e" "CreateStorageKey_Nonce (paraConn s) a = Inr key"
       "GetStorage_Nonce (paraConn s) key paraHash = Inr stored"
       "m a = (if e < (case stored of None \<Rightarrow> 0 | Some n \<Rightarrow> n) then Some (e + 1) else None)"
    by fastforce
  have "unat (e + 1) = Suc (unat e)" if "e < p" for p :: u64
  proof -
    have "unat p < 2 ^ 64" using unsigned_less [of p, where ?'a = nat] by simp
    moreover from that have "unat e < unat p" by (simp add: word_less_nat_alt)
    ultimately show ?thesis by (simp add: unat_word_ariths)
  qed
  with i show "\<exists>e key stored.
         eth_Nonce (ethConn s) a = Inr e \<and> CreateStorageKey_Nonce (paraConn s) a = Inr key \<and>
         GetStorage_Nonce (paraConn s) key paraHash = Inr stored \<and>
         m a = (if e < (case stored of None \<Rightarrow> 0 | Some n \<Rightarrow> n) then Some (e + 1) else None) \<and>
         (e < (case stored of None \<Rightarrow> 0 | Some n \<Rightarrow> n) \<longrightarrow> unat (e + 1) = Suc (unat e))"
    by blast
qed (auto simp: Scan_def findTasks_def Let_def dest: findNonces_map split: prod.splits sum.splits)

theorem nonce_mismatch_map_witness:
  "findNonces exScanner 3 (accounts exScanner) Map.empty = Inr [1 \<mapsto> 6, 2 \<mapsto> 4] \<and>
   findNonces exEqualScanner 3 (accounts exEqualScanner) Map.empty = Inr Map.empty \<and>
   Scan exEqualScanner 31 = ([], Inr []) \<and>
   fst (Scan exScanner 31) = [3, 2, 1] \<and>
   unat ((5 :: u64) + 1) = Suc (unat (5 :: u64))"
  using nonce_mismatch_map [of exScanner 3 "[1 \<mapsto> 6, 2 \<mapsto> 4]" 31 30 "exHeader 3"]
        nonce_mismatch_map [of exEqualScanner 3 Map.empty 31 30 "exHeader 3"]
  by (simp add: ex_defs run_defs scan_defs exEqualScanner_def)

text \<open>
  Claim C10. \<open>Scan\<close> asks the relay chain for the hash of block
  \<open>beefyBlockNumber - 1\<close> in 64-bit arithmetic, with no check before: for
  \<open>beefyBlockNumber = 0\<close> that is block \<open>2^64 - 1\<close>. An error for that block is the
  scan's error, and an answer for it is scanned like any other.
\<close>

theorem scan_has_no_lower_bound:
  "(relay_GetBlockHash (relayConn s) (beefyBlockNumber - 1) = Inl err \<longrightarrow>
      Scan s beefyBlockNumber = ([], Inl (Wrapf ''fetch block hash for block'' err))) \<and>
   (relay_GetBlockHash (relayConn s) 18446744073709551615 = Inl err \<longrightarrow>
      Scan s 0 = ([], Inl (Wrapf ''fetch block hash for block'' err))) \<and>
   (relay_GetBlockHash (relayConn s) 18446744073709551615 = Inr relayHash \<and>
    FetchParachainHead (relayConn s) relayHash (paraID s) = Inr (Some paraHead) \<and>
    para_GetBlockHash (paraConn s) (ucast (Number paraHead)) = Inr paraHash \<longrightarrow>
      Scan s 0 = findTasks s (ucast (Number paraHead)) paraHash) \<and>
   unat (beefyBlockNumber - 1) = (unat beefyBlockNumber + 2 ^ 64 - 1) mod 2 ^ 64"
proof -
  have w: "(18446744073709551615 :: u64) = - 1" by simp
  have "unat (beefyBlockNumber - 1) = (unat beefyBlockNumber + 2 ^ 64 - 1) mod 2 ^ 64"
  proof (cases "beefyBlockNumber = 0")
    case True
    then show ?thesis by (simp add: unsigned_minus_1_eq_mask mask_eq_exp_minus_1)
  next
    case False
    then have "unat (beefyBlockNumber - 1) = unat beefyBlockNumber - 1" "0 < unat beefyBlockNumber"
      by (simp_all add: unat_minus_one unat_gt_0)
    moreover have "unat beefyBlockNumber < 2 ^ 64"
      using unsigned_less [of beefyBlockNumber, where ?'a = nat] by simp
    ultimately show ?thesis by (simp add: mod_if)
  qed
  then show ?thesis
    by (simp add: Scan_def w Let_def)
qed

theorem scan_has_no_lower_bound_witness:
  "relay_GetBlockHash (relayConn exNoWrapScanner) 18446744073709551615 = Inl (Errorf ''unknown block'') \<and>
   Scan exNoWrapScanner 0 =
     ([], Inl (Wrapf ''fetch block hash for block'' (Errorf ''unknown block''))) \<and>
   relay_GetBlockHash (relayConn exWrapScanner) 18446744073709551615 = Inr 30 \<and>
   Scan exWrapScanner 0 =
     ([3, 2, 1],
      Inr [exTask 1 [exProof 1 6 193] (Some (exInput 12 1)),
           exTask 3 [exProof 1 7 195, exProof 2 4 195] (Some (exInput 21 3))])"
  using scan_has_no_lower_bound [of exNoWrapScanner 0 "Errorf ''unknown block''" 30 "exHeader 3" 3]
        scan_has_no_lower_bound [of exWrapScanner 0 "Errorf ''unknown block''" 30 "exHeader 3" 3]
  by (simp add: ex_defs run_defs scan_defs exWrapScanner_def exNoWrapScanner_def exTask_def
        exInput_def)

subsection \<open>Proof inputs\<close>

lemma ucast_u32_u64_inj:
  assumes "(ucast (a :: u32) :: u64) = ucast b"
  shows "a = b"
proof -
  have up: "is_up (ucast :: u32 \<Rightarrow> u64)" by (simp add: is_up)
  from assms have "(ucast (ucast a :: u64) :: u32) = ucast (ucast b :: u64)" by simp
  then show ?thesis by (simp add: ucast_up_ucast_id [OF up])
qed

lemma inclusionLoop_found:
  "inclusionLoop s paraBlockNumber bound i = Inr n \<Longrightarrow>
   \<exists>relayBlockHash paraHead.
     relay_GetBlockHash (relayConn s) n = Inr relayBlockHash \<and>
     FetchParachainHead (relayConn s) relayBlockHash (paraID s) = Inr (Some paraHead) \<and>
     paraBlockNumber = ucast (Number paraHead)"
proof (induction s paraBlockNumber bound i rule: inclusionLoop.induct)
  case (1 s paraBlockNumber bound i)
  from "1.prems" show ?case
    by (subst (asm) inclusionLoop.simps)
       (auto split: if_splits sum.splits option.splits dest: "1.IH")
qed

lemma findInclusionBlockNumber_found:
  "findInclusionBlockNumber s paraBlockNumber = Inr n \<Longrightarrow>
   \<exists>relayBlockHash paraHead.
     relay_GetBlockHash (relayConn s) n = Inr relayBlockHash \<and>
     FetchParachainHead (relayConn s) relayBlockHash (paraID s) = Inr (Some paraHead) \<and>
     paraBlockNumber = ucast (Number paraHead)"
  by (auto simp: findInclusionBlockNumber_def Let_def split: sum.splits option.splits
      dest: inclusionLoop_found)

lemma gatherProofInputs_inputs:
  assumes "\<forall>t \<in> set tasks. ProofInput t = None"
  shows "\<forall>t \<in> set (fst (gatherProofInputs s tasks)). \<forall>input.
           ProofInput t = Some input \<longrightarrow> inclusionWitness s (Header t) input"
  using assms
proof (induction tasks)
  case Nil
  then show ?case by simp
next
  case (Cons task tasks)
  then have rest: "\<forall>t \<in> set (fst (gatherProofInputs s tasks)). \<forall>input.
      ProofInput t = Some input \<longrightarrow> inclusionWitness s (Header t) input"
    and none: "ProofInput task = None" "\<forall>t \<in> set tasks. ProofInput t = None"
    by simp_all
  show ?case
  proof (cases "findInclusionBlockNumber s (ucast (Number (Header task)))")
    case (Inl err)
    with none show ?thesis by simp
  next
    case (Inr relayBlockNumber)
    note found = this
    from findInclusionBlockNumber_found [OF Inr] obtain relayBlockHash paraHead where
      f: "relay_GetBlockHash (relayConn s) relayBlockNumber = Inr relayBlockHash"
         "FetchParachainHead (relayConn s) relayBlockHash (paraID s) = Inr (Some paraHead)"
         "(ucast (Number (Header task)) :: u64) = ucast (Number paraHead)"
      by blast
    from f(3) have num: "Number paraHead = Number (Header task)"
      by (simp add: ucast_u32_u64_inj)
    show ?thesis
    proof (cases "FetchParachainHeads (relayConn s) relayBlockHash")
      case (Inl err)
      with found f(1) none show ?thesis by simp
    next
      case heads: (Inr parachainHeads)
      with found f(1,2) num rest show ?thesis
        by (simp add: Let_def inclusionWitness_def)
    qed
  qed
qed

lemma findTasksLoop_no_input:
  "snd (findTasksLoop s nonces cur accs d tasks) = Inr ts \<Longrightarrow>
   \<forall>t \<in> set tasks. ProofInput t = None \<Longrightarrow> \<forall>t \<in> set ts. ProofInput t = None"
proof (induction s nonces cur accs d tasks rule: findTasksLoop.induct)
  case (1 s nonces cur accs d tasks)
  from "1.prems" "1.IH" show ?case
    by (subst (asm) findTasksLoop.simps)
       (auto simp: checkingHeader_def sortTasks_def split: if_splits sum.splits)
qed

text \<open>
  Claim C9, as amended. For every task of a successful scan that carries a proof input:
  the input names the scanner's parachain id, the head registered for the parachain at the
  input's relay block has the same number as the task's header, and the input's heads are
  the list the relay chain reports at that relay block.
\<close>

theorem proof_input_inclusion:
  "snd (Scan s beefyBlockNumber) = Inr tasks \<longrightarrow>
     (\<forall>t \<in> set tasks. \<forall>input. ProofInput t = Some input \<longrightarrow>
        inclusionWitness s (Header t) input)"
proof
  assume r: "snd (Scan s beefyBlockNumber) = Inr tasks"
  then have "Scan s beefyBlockNumber = (fst (Scan s beefyBlockNumber), Inr tasks)"
    by (metis prod.collapse)
  from Scan_result [OF this] obtain paraBlock paraHash where
    "findTasks s paraBlock paraHash = (fst (Scan s beefyBlockNumber), Inr tasks)" by blast
  from findTasks_result [OF this] consider
    (empty) "tasks = []"
  | (walk) noncesToFind ts where
      "findTasksImpl s paraBlock noncesToFind = (fst (Scan s beefyBlockNumber), Inr ts)"
      "tasks = fst (gatherProofInputs s ts)"
    by blast
  then show "\<forall>t \<in> set tasks. \<forall>input. ProofInput t = Some input \<longrightarrow>
        inclusionWitness s (Header t) input"
  proof cases
    case empty
    then show ?thesis by simp
  next
    case walk
    from walk(1) have "snd (findTasksLoop s noncesToFind paraBlock (dom noncesToFind)
        (dom noncesToFind = {}) []) = Inr ts"
      by (simp add: findTasksImpl_def)
    from findTasksLoop_no_input [OF this] have "\<forall>t \<in> set ts. ProofInput t = None" by simp
    from gatherProofInputs_inputs [OF this] walk(2) show ?thesis by simp
  qed
qed

theorem proof_input_inclusion_witness:
  "Scan exScanner 31 =
     ([3, 2, 1],
      Inr [exTask 1 [exProof 1 6 193] (Some (exInput 12 1)),
           exTask 3 [exProof 1 7 195, exProof 2 4 195] (Some (exInput 21 3))]) \<and>
   inclusionWitness exScanner (exHeader 1) (exInput 12 1) \<and>
   inclusionWitness exScanner (exHeader 3) (exInput 21 3)"
  using proof_input_inclusion [of exScanner 31
          "[exTask 1 [exProof 1 6 193] (Some (exInput 12 1)),
            exTask 3 [exProof 1 7 195, exProof 2 4 195] (Some (exInput 21 3))]"]
  by (simp add: ex_defs run_defs scan_defs exTask_def exInput_def inclusionWitness_def)

text \<open>
  The claim itself asks for more than the code checks. Here the head registered at relay
  block 12 has the number of the task's header and another state root, and the relay chain
  reports one head only: the head differs from the task's header, the header is not among
  the input's heads, and the heads have no index 1000.
\<close>

theorem proof_input_inclusion_counterexample:
  "Scan exForkScanner 31 =
     ([3, 2, 1],
      Inr [exTask 1 [exProof 1 6 193] (Some (exForkInput 12)),
           exTask 3 [exProof 1 7 195, exProof 2 4 195] (Some (exForkInput 21))]) \<and>
   relay_GetBlockHash (relayConn exForkScanner) (RelayBlockNumber (exForkInput 12)) = Inr 12 \<and>
   FetchParachainHead (relayConn exForkScanner) 12 (paraID exForkScanner) =
     Inr (Some (exForkHead 12)) \<and>
   Number (exForkHead 12) = Number (exHeader 1) \<and>
   exForkHead 12 \<noteq> exHeader 1 \<and>
   exHeader 1 \<notin> set (ParaHeads (exForkInput 12)) \<and>
   \<not> unat (ParaID (exForkInput 12)) < length (ParaHeads (exForkInput 12))"
  by (simp add: ex_defs run_defs scan_defs exTask_def exForkInput_def exForkHead_def
        exForkScanner_def)

text \<open>
  Claim C1, evaluated on the code. The task of block 1 has the relay parent 10 and no relay
  block from 11 to 14 registers a head with number 1: \<open>findInclusionBlockNumber\<close> fails
  and \<open>gatherProofInputs\<close> returns the error, yet \<open>Scan\<close> returns the two tasks,
  without proof inputs, and no error.
\<close>

theorem inclusion_error_is_dropped:
  "findInclusionBlockNumber exLateScanner 1 = Inl (Errorf ''scan terminated'') \<and>
   gatherProofInputs exLateScanner
       [exTask 1 [exProof 1 6 193] None, exTask 3 [exProof 1 7 195, exProof 2 4 195] None] =
     ([exTask 1 [exProof 1 6 193] None, exTask 3 [exProof 1 7 195, exProof 2 4 195] None],
      Some (Wrapf ''find inclusion block number for parachain block''
             (Errorf ''scan terminated''))) \<and>
   Scan exLateScanner 31 =
     ([3, 2, 1],
      Inr [exTask 1 [exProof 1 6 193] None, exTask 3 [exProof 1 7 195, exProof 2 4 195] None])"
  by (simp add: ex_defs run_defs scan_defs exTask_def exLateScanner_def)

end
